theory Spec2Isabelle
  imports Main "HOL-Library.Word" "HOL-Library.Sublist" "HOL-Library.AList"
    "HOL-Library.Char_ord" "HOL-Library.List_Lexorder"
begin

unbundle bit_operations_syntax

section \<open>Go values: strings, errors\<close>

text \<open>
  A Go \<^verbatim>\<open>string\<close> and a Go \<^verbatim>\<open>[]byte\<close> are both byte sequences; they are modelled
  by \<^typ>\<open>string\<close> (a list of 8-bit characters), so the conversion
  \<^verbatim>\<open>string(f.Content)\<close> is the identity. Strings compare bytewise, as Go's \<^verbatim>\<open><\<close> does.

  A path is an absolute, cleaned path, kept as the list of its components;
  \<^verbatim>\<open>filepath.Join(dir, name)\<close> of a path and a single component appends the component.
\<close>

type_synonym path = "string list"

definition Join :: "path \<Rightarrow> string \<Rightarrow> path" where
  "Join dir name = dir @ [name]"

datatype errno = ENOENT | ENOTDIR | EISDIR | EEXIST | ENOTEMPTY | EXDEV | ELOOP
  | ENAMETOOLONG | EINVAL | EBUSY | ENXIO

text \<open>
  Go error values. \<^verbatim>\<open>errors.New(s)\<close> is \<open>ErrorString s\<close>; \<^verbatim>\<open>fmt.Errorf\<close> keeps its format
  and its string arguments, and the error argument of a \<^verbatim>\<open>%w\<close> verb (\<open>ErrorfW\<close>, which
  \<^verbatim>\<open>Unwrap\<close> returns) or of a \<^verbatim>\<open>%v\<close> verb (\<open>ErrorfV\<close>, which is not unwrapped).
  \<open>PathError\<close> and \<open>LinkError\<close> are \<^verbatim>\<open>*fs.PathError\<close> and \<^verbatim>\<open>*os.LinkError\<close>.
\<close>

datatype go_error =
    Errno errno
  | ErrorString string
  | Errorf string "string list"
  | ErrorfW string "string list" go_error
  | ErrorfV string "string list" go_error
  | PathError string path go_error
  | LinkError string path path go_error

text \<open>\<^verbatim>\<open>errors.As(err, &linkErr)\<close> with \<^verbatim>\<open>linkErr\<close> of type \<^verbatim>\<open>*os.LinkError\<close>.\<close>

fun errors_As_LinkError :: "go_error \<Rightarrow> bool" where
  "errors_As_LinkError (LinkError op old new e) = True"
| "errors_As_LinkError (PathError op p e) = errors_As_LinkError e"
| "errors_As_LinkError (ErrorfW f args e) = errors_As_LinkError e"
| "errors_As_LinkError _ = False"


section \<open>PathValidator\<close>

text \<open>\<^verbatim>\<open>strings.ContainsAny(s, chars)\<close> and \<^verbatim>\<open>strings.HasPrefix(s, p)\<close>, on bytes.\<close>

definition ContainsAny :: "string \<Rightarrow> string \<Rightarrow> bool" where
  "ContainsAny s chars = list_ex (\<lambda>c. c \<in> set chars) s"

definition HasPrefix :: "string \<Rightarrow> string \<Rightarrow> bool" where
  "HasPrefix s p = (take (length p) s = p)"

definition validateName :: "string \<Rightarrow> go_error option" where
  "validateName name =
    (if name = '''' then Some (ErrorString ''name cannot be empty'')
     else if name = ''.'' then None
     else if name = ''..''
       then Some (ErrorString (CHR 0x27 # ''..'' @ CHR 0x27 # '' is not a supported directory name''))
     else if ContainsAny name [CHR ''/'', CHR 0x5C]
       then Some (Errorf ''name %q may not contain path separators'' [name])
     else if HasPrefix name ''-''
       then Some (Errorf (''name %q may not start with '' @ [CHR 0x27, CHR ''-'', CHR 0x27]) [name])
     else None)"

section \<open>The file system\<close>

text \<open>
  The operating system as the program sees it through Go's \<^verbatim>\<open>os\<close> package. The file
  system is a tree of nodes: regular files with their bytes, directories with their
  entries in the order the file system enumerates them, symbolic links with their target,
  and special files (pipes, sockets, devices). A world is the tree, the process's umask and
  the list of mount points. What the model covers:
  \<^item> path resolution follows symbolic links in every component, at most 40 of them
    (\<open>ELOOP\<close>), and refuses a path of \<open>PATH_MAX\<close> bytes or more (\<open>ENAMETOOLONG\<close>);
  \<^item> \<^verbatim>\<open>os.Lstat\<close> and \<^verbatim>\<open>DirEntry.Info\<close> report on a link itself, \<^verbatim>\<open>os.Stat\<close>,
    \<^verbatim>\<open>os.Open\<close>, \<^verbatim>\<open>os.ReadFile\<close> and \<^verbatim>\<open>os.WriteFile\<close> on its target;
  \<^item> \<^verbatim>\<open>os.ReadDir\<close> returns the entries sorted by name;
  \<^item> a new file or directory gets the nine permission bits asked for, less the umask;
  \<^item> \<^verbatim>\<open>os.Rename\<close> fails with \<open>EXDEV\<close> across mount points, and every failure of it is
    a \<^verbatim>\<open>*os.LinkError\<close>, as in Go's implementation.
  Not modelled: permission checks, hard links, timestamps, ownership, the setuid, setgid
  and sticky bits, quotas, and other processes. Logging to standard output is left out of
  the program's functions.
\<close>

type_synonym FileMode = "32 word"

definition ModeDir :: FileMode where "ModeDir = push_bit 31 1"
definition ModeSymlink :: FileMode where "ModeSymlink = push_bit 27 1"
definition ModeDevice :: FileMode where "ModeDevice = push_bit 26 1"
definition ModeNamedPipe :: FileMode where "ModeNamedPipe = push_bit 25 1"
definition ModeSocket :: FileMode where "ModeSocket = push_bit 24 1"
definition ModeCharDevice :: FileMode where "ModeCharDevice = push_bit 21 1"
definition ModeIrregular :: FileMode where "ModeIrregular = push_bit 19 1"
definition ModeType :: FileMode where
  "ModeType = ModeDir OR ModeSymlink OR ModeNamedPipe OR ModeSocket OR ModeDevice
     OR ModeCharDevice OR ModeIrregular"
definition ModePerm :: FileMode where "ModePerm = 0x1FF"

datatype special = NamedPipe | Socket | Device | CharDevice | Irregular

datatype node =
    File FileMode string
  | Dir FileMode "(string \<times> node) list"
  | Symlink path
  | Special special FileMode

record world =
  root :: node
  umask :: FileMode
  mounts :: "path list"

definition PATH_MAX :: nat where "PATH_MAX = 4096"

definition path_len :: "path \<Rightarrow> nat" where
  "path_len p = sum_list (map (\<lambda>c. Suc (length c)) p)"

fun lookup :: "node \<Rightarrow> path \<Rightarrow> node option" where
  "lookup n [] = Some n"
| "lookup (Dir m cs) (c # p) = (case map_of cs c of None \<Rightarrow> None | Some ch \<Rightarrow> lookup ch p)"
| "lookup _ (c # p) = None"

fun put :: "path \<Rightarrow> node option \<Rightarrow> node \<Rightarrow> node" where
  "put [] v n = (case v of None \<Rightarrow> n | Some n' \<Rightarrow> n')"
| "put [c] v (Dir m cs) =
     Dir m (case v of None \<Rightarrow> AList.delete c cs | Some n' \<Rightarrow> AList.update c n' cs)"
| "put (c # p) v (Dir m cs) =
     (case map_of cs c of None \<Rightarrow> Dir m cs
      | Some ch \<Rightarrow> Dir m (AList.update c (put p v ch) cs))"
| "put (c # p) v n = n"

function walk :: "node \<Rightarrow> bool \<Rightarrow> nat \<Rightarrow> path \<Rightarrow> path \<Rightarrow> errno + path" where
  "walk r follow h cur [] = Inr cur"
| "walk r follow h cur (c # rest) =
     (case lookup r cur of
        None \<Rightarrow> Inl ENOENT
      | Some (Dir m cs) \<Rightarrow>
          (case map_of cs c of
             Some (Symlink tgt) \<Rightarrow>
               if rest = [] \<and> \<not> follow then Inr (cur @ [c])
               else (case h of 0 \<Rightarrow> Inl ELOOP | Suc h' \<Rightarrow> walk r follow h' [] (tgt @ rest))
           | _ \<Rightarrow> walk r follow h (cur @ [c]) rest)
      | Some _ \<Rightarrow> Inl ENOTDIR)"
  by pat_completeness auto
termination
  by (relation "inv_image (less_than <*lex*> less_than) (\<lambda>(r, follow, h, cur, rest). (h, length rest))") auto

definition resolve :: "world \<Rightarrow> bool \<Rightarrow> path \<Rightarrow> errno + path" where
  "resolve w follow p =
     (if PATH_MAX \<le> path_len p then Inl ENAMETOOLONG else walk (root w) follow 40 [] p)"


subsection \<open>File modes and file information\<close>

definition special_bits :: "special \<Rightarrow> FileMode" where
  "special_bits k = (case k of NamedPipe \<Rightarrow> ModeNamedPipe | Socket \<Rightarrow> ModeSocket
     | Device \<Rightarrow> ModeDevice | CharDevice \<Rightarrow> ModeDevice OR ModeCharDevice
     | Irregular \<Rightarrow> ModeIrregular)"

fun mode_of :: "node \<Rightarrow> FileMode" where
  "mode_of (File m content) = m AND ModePerm"
| "mode_of (Dir m cs) = ModeDir OR (m AND ModePerm)"
| "mode_of (Symlink tgt) = ModeSymlink OR ModePerm"
| "mode_of (Special k m) = special_bits k OR (m AND ModePerm)"

definition IsDir :: "FileMode \<Rightarrow> bool" where
  "IsDir m = (m AND ModeDir \<noteq> 0)"

definition IsRegular :: "FileMode \<Rightarrow> bool" where
  "IsRegular m = (m AND ModeType = 0)"

record FileInfo =
  info_Name :: string
  info_Mode :: FileMode

record DirEntry =
  entry_Name :: string
  entry_Type :: FileMode
  entry_dir :: path

definition base_name :: "path \<Rightarrow> string" where
  "base_name p = (if p = [] then ''/'' else last p)"

definition node_at :: "world \<Rightarrow> bool \<Rightarrow> path \<Rightarrow> errno + path \<times> node" where
  "node_at w follow p =
     (case resolve w follow p of
        Inl e \<Rightarrow> Inl e
      | Inr cp \<Rightarrow> (case lookup (root w) cp of None \<Rightarrow> Inl ENOENT | Some n \<Rightarrow> Inr (cp, n)))"

definition Lstat :: "world \<Rightarrow> path \<Rightarrow> go_error + FileInfo" where
  "Lstat w p =
     (case node_at w False p of
        Inl e \<Rightarrow> Inl (PathError ''lstat'' p (Errno e))
      | Inr (cp, n) \<Rightarrow> Inr \<lparr>info_Name = base_name p, info_Mode = mode_of n\<rparr>)"

definition Stat :: "world \<Rightarrow> path \<Rightarrow> go_error + FileInfo" where
  "Stat w p =
     (case node_at w True p of
        Inl e \<Rightarrow> Inl (PathError ''stat'' p (Errno e))
      | Inr (cp, n) \<Rightarrow> Inr \<lparr>info_Name = base_name p, info_Mode = mode_of n\<rparr>)"

definition entry_Info :: "world \<Rightarrow> DirEntry \<Rightarrow> go_error + FileInfo" where
  "entry_Info w e = Lstat w (Join (entry_dir e) (entry_Name e))"

definition entry_IsDir :: "DirEntry \<Rightarrow> bool" where
  "entry_IsDir e = IsDir (entry_Type e)"

subsection \<open>Reading\<close>

definition ReadDir :: "world \<Rightarrow> path \<Rightarrow> go_error + DirEntry list" where
  "ReadDir w p =
     (case node_at w True p of
        Inl e \<Rightarrow> Inl (PathError ''open'' p (Errno e))
      | Inr (cp, Dir m cs) \<Rightarrow>
          Inr (map (\<lambda>name. \<lparr>entry_Name = name,
                             entry_Type = mode_of (the (map_of cs name)) AND ModeType,
                             entry_dir = p\<rparr>)
                 (sort (remdups (map fst cs))))
      | Inr (cp, n) \<Rightarrow> Inl (PathError ''readdirent'' p (Errno ENOTDIR)))"

definition ReadFile :: "world \<Rightarrow> path \<Rightarrow> go_error + string" where
  "ReadFile w p =
     (case node_at w True p of
        Inl e \<Rightarrow> Inl (PathError ''open'' p (Errno e))
      | Inr (cp, File m content) \<Rightarrow> Inr content
      | Inr (cp, Dir m cs) \<Rightarrow> Inl (PathError ''read'' p (Errno EISDIR))
      | Inr (cp, n) \<Rightarrow> Inl (PathError ''read'' p (Errno ENXIO)))"

subsection \<open>Writing\<close>

definition set_node :: "world \<Rightarrow> path \<Rightarrow> node option \<Rightarrow> world" where
  "set_node w cp v = w\<lparr>root := put cp v (root w)\<rparr>"

definition Open :: "world \<Rightarrow> path \<Rightarrow> go_error + path" where
  "Open w p =
     (case node_at w True p of
        Inl e \<Rightarrow> Inl (PathError ''open'' p (Errno e))
      | Inr (cp, Special k m) \<Rightarrow> Inl (PathError ''open'' p (Errno ENXIO))
      | Inr (cp, n) \<Rightarrow> Inr cp)"

definition OpenFile_create_trunc :: "world \<Rightarrow> path \<Rightarrow> FileMode \<Rightarrow> (go_error + path) \<times> world" where
  "OpenFile_create_trunc w p perm =
     (case resolve w True p of
        Inl e \<Rightarrow> (Inl (PathError ''open'' p (Errno e)), w)
      | Inr cp \<Rightarrow>
          (case lookup (root w) cp of
             None \<Rightarrow> (Inr cp, set_node w cp (Some (File (perm AND ModePerm AND NOT (umask w)) [])))
           | Some (File m content) \<Rightarrow> (Inr cp, set_node w cp (Some (File m [])))
           | Some (Dir m cs) \<Rightarrow> (Inl (PathError ''open'' p (Errno EISDIR)), w)
           | Some n \<Rightarrow> (Inl (PathError ''open'' p (Errno ENXIO)), w)))"

definition handle_Stat :: "world \<Rightarrow> path \<Rightarrow> go_error + FileInfo" where
  "handle_Stat w h =
     (case lookup (root w) h of
        None \<Rightarrow> Inl (PathError ''stat'' h (Errno ENOENT))
      | Some n \<Rightarrow> Inr \<lparr>info_Name = base_name h, info_Mode = mode_of n\<rparr>)"

definition handle_Write :: "world \<Rightarrow> path \<Rightarrow> string \<Rightarrow> go_error option \<times> world" where
  "handle_Write w h data =
     (case lookup (root w) h of
        Some (File m content) \<Rightarrow> (None, set_node w h (Some (File m (content @ data))))
      | _ \<Rightarrow> (Some (PathError ''write'' h (Errno EINVAL)), w))"

definition io_Copy :: "world \<Rightarrow> path \<Rightarrow> path \<Rightarrow> go_error option \<times> world" where
  "io_Copy w dstFile srcFile =
     (case lookup (root w) srcFile of
        Some (File m content) \<Rightarrow> handle_Write w dstFile content
      | Some (Dir m cs) \<Rightarrow> (Some (PathError ''read'' srcFile (Errno EISDIR)), w)
      | _ \<Rightarrow> (Some (PathError ''read'' srcFile (Errno EINVAL)), w))"

definition WriteFile :: "world \<Rightarrow> path \<Rightarrow> string \<Rightarrow> FileMode \<Rightarrow> go_error option \<times> world" where
  "WriteFile w p data perm =
     (case OpenFile_create_trunc w p perm of
        (Inl e, w') \<Rightarrow> (Some e, w')
      | (Inr h, w') \<Rightarrow> handle_Write w' h data)"

definition Mkdir :: "world \<Rightarrow> path \<Rightarrow> FileMode \<Rightarrow> go_error option \<times> world" where
  "Mkdir w p perm =
     (case resolve w False p of
        Inl e \<Rightarrow> (Some (PathError ''mkdir'' p (Errno e)), w)
      | Inr cp \<Rightarrow>
          (case lookup (root w) cp of
             None \<Rightarrow> (None, set_node w cp (Some (Dir (perm AND ModePerm AND NOT (umask w)) [])))
           | Some n \<Rightarrow> (Some (PathError ''mkdir'' p (Errno EEXIST)), w)))"

function MkdirAll :: "world \<Rightarrow> path \<Rightarrow> FileMode \<Rightarrow> go_error option \<times> world" where
  "MkdirAll w p perm =
     (case Stat w p of
        Inr dir \<Rightarrow>
          if IsDir (info_Mode dir) then (None, w)
          else (Some (PathError ''mkdir'' p (Errno ENOTDIR)), w)
      | Inl err \<Rightarrow>
          (case (if 1 < length p then MkdirAll w (butlast p) perm else (None, w)) of
             (Some err, w1) \<Rightarrow> (Some err, w1)
           | (None, w1) \<Rightarrow>
               (case Mkdir w1 p perm of
                  (None, w2) \<Rightarrow> (None, w2)
                | (Some err, w2) \<Rightarrow>
                    (case Lstat w2 p of
                       Inr dir \<Rightarrow> if IsDir (info_Mode dir) then (None, w2) else (Some err, w2)
                     | Inl err1 \<Rightarrow> (Some err, w2)))))"
  by pat_completeness auto
termination
  by (relation "measure (\<lambda>(w, p, perm). length p)") auto

definition RemoveAll :: "world \<Rightarrow> path \<Rightarrow> go_error option \<times> world" where
  "RemoveAll w p =
     (case resolve w False p of
        Inl ENOENT \<Rightarrow> (None, w)
      | Inl e \<Rightarrow> (Some (PathError ''unlinkat'' p (Errno e)), w)
      | Inr cp \<Rightarrow>
          if cp = [] then (Some (PathError ''unlinkat'' p (Errno EBUSY)), w)
          else (None, set_node w cp None))"

subsection \<open>Renaming\<close>

definition dev_of :: "world \<Rightarrow> path \<Rightarrow> path" where
  "dev_of w cp = foldr (\<lambda>m best. if prefix m cp \<and> length best \<le> length m then m else best)
     (mounts w) []"

definition is_Dir :: "node \<Rightarrow> bool" where
  "is_Dir n = (case n of Dir m cs \<Rightarrow> True | _ \<Rightarrow> False)"

definition syscall_Rename :: "world \<Rightarrow> path \<Rightarrow> path \<Rightarrow> errno option \<times> world" where
  "syscall_Rename w oldname newname =
     (case node_at w False oldname of
        Inl e \<Rightarrow> (Some e, w)
      | Inr (csrc, n) \<Rightarrow>
          (case resolve w False newname of
             Inl e \<Rightarrow> (Some e, w)
           | Inr cdst \<Rightarrow>
               if csrc = [] \<or> cdst = [] \<or> csrc \<in> set (mounts w) then (Some EBUSY, w)
               else if dev_of w csrc \<noteq> dev_of w cdst then (Some EXDEV, w)
               else if csrc = cdst then (None, w)
               else if prefix csrc cdst then (Some EINVAL, w)
               else if prefix cdst csrc then (Some ENOTEMPTY, w)
               else (case lookup (root w) cdst of
                  None \<Rightarrow> (None, set_node (set_node w csrc None) cdst (Some n))
                | Some (Dir m cs) \<Rightarrow>
                    if \<not> is_Dir n then (Some EISDIR, w)
                    else if cs \<noteq> [] then (Some ENOTEMPTY, w)
                    else (None, set_node (set_node w csrc None) cdst (Some n))
                | Some d \<Rightarrow>
                    if is_Dir n then (Some ENOTDIR, w)
                    else (None, set_node (set_node w csrc None) cdst (Some n)))))"

definition Rename :: "world \<Rightarrow> path \<Rightarrow> path \<Rightarrow> go_error option \<times> world" where
  "Rename w oldname newname =
     (let blocked =
        (case Lstat w newname of
           Inr fi \<Rightarrow>
             if IsDir (info_Mode fi) then
               (case Lstat w oldname of
                  Inl (PathError op p e) \<Rightarrow> Some (LinkError ''rename'' oldname newname e)
                | Inl e \<Rightarrow> Some (LinkError ''rename'' oldname newname e)
                | Inr ofi \<Rightarrow>
                    if newname = oldname \<or> resolve w False newname \<noteq> resolve w False oldname
                    then Some (LinkError ''rename'' oldname newname (Errno EEXIST))
                    else None)
             else None
         | Inl err \<Rightarrow> None)
      in case blocked of
           Some err \<Rightarrow> (Some err, w)
         | None \<Rightarrow>
             (case syscall_Rename w oldname newname of
                (Some e, w') \<Rightarrow> (Some (LinkError ''rename'' oldname newname (Errno e)), w')
              | (None, w') \<Rightarrow> (None, w')))"

section \<open>CrossDeviceMover\<close>

definition copyFile :: "world \<Rightarrow> path \<Rightarrow> path \<Rightarrow> go_error option \<times> world" where
  "copyFile w src dst =
     (case Open w src of
        Inl err \<Rightarrow> (Some err, w)
      | Inr srcFile \<Rightarrow>
          (case handle_Stat w srcFile of
             Inl err \<Rightarrow> (Some err, w)
           | Inr srcInfo \<Rightarrow>
               (case OpenFile_create_trunc w dst (info_Mode srcInfo) of
                  (Inl err, w1) \<Rightarrow> (Some err, w1)
                | (Inr dstFile, w1) \<Rightarrow>
                    (case io_Copy w1 dstFile srcFile of
                       (Some err, w2) \<Rightarrow> (Some err, w2)
                     | (None, w2) \<Rightarrow> (None, w2)))))"

function copyDir :: "world \<Rightarrow> path \<Rightarrow> path \<Rightarrow> go_error option \<times> world"
  and copyDir_loop :: "world \<Rightarrow> path \<Rightarrow> path \<Rightarrow> DirEntry list \<Rightarrow> go_error option \<times> world"
where
  "copyDir w src dst =
     (case Stat w src of
        Inl err \<Rightarrow> (Some err, w)
      | Inr srcInfo \<Rightarrow>
          (case MkdirAll w dst (info_Mode srcInfo) of
             (Some err, w1) \<Rightarrow> (Some err, w1)
           | (None, w1) \<Rightarrow>
               (case ReadDir w1 src of
                  Inl err \<Rightarrow> (Some err, w1)
                | Inr entries \<Rightarrow> copyDir_loop w1 src dst entries)))"
| "copyDir_loop w src dst [] = (None, w)"
| "copyDir_loop w src dst (entry # entries) =
     (let srcPath = Join src (entry_Name entry);
          dstPath = Join dst (entry_Name entry)
      in case (if entry_IsDir entry then copyDir w srcPath dstPath
               else copyFile w srcPath dstPath) of
           (Some err, w') \<Rightarrow> (Some err, w')
         | (None, w') \<Rightarrow> copyDir_loop w' src dst entries)"
  by pat_completeness auto
termination
proof (relation "inv_image (less_than <*lex*> less_than <*lex*> less_than)
    (\<lambda>x. case x of
       Inl (w, src, dst) \<Rightarrow> (PATH_MAX - path_len src, 1::nat, 0::nat)
     | Inr (w, src, dst, entries) \<Rightarrow> (PATH_MAX - path_len src - 1, 2, length entries))",
    goal_cases)
  case 1
  show ?case by (intro wf_inv_image wf_lex_prod wf_less_than)
next
  case (2 w src dst srcInfo x1 w1 entries)
  from \<open>Stat w src = Inr srcInfo\<close> have "path_len src < PATH_MAX"
    by (auto simp: Stat_def node_at_def resolve_def split: if_splits sum.splits)
  then show ?case by auto
next
  case (3 w src dst entry entries srcPath dstPath)
  have "path_len srcPath = path_len src + Suc (length (entry_Name entry))"
    using 3 by (simp add: Join_def path_len_def)
  then show ?case by auto
next
  case 4
  then show ?case by simp
qed

definition moveFileOrDir :: "world \<Rightarrow> path \<Rightarrow> path \<Rightarrow> go_error option \<times> world" where
  "moveFileOrDir w src dst =
     (case Rename w src dst of
        (None, w1) \<Rightarrow> (None, w1)
      | (Some err, w1) \<Rightarrow>
          if \<not> errors_As_LinkError err then (Some err, w1)
          else (case copyDir w1 src dst of
                  (Some err, w2) \<Rightarrow> (Some (ErrorfW ''copy: %w'' [] err), w2)
                | (None, w2) \<Rightarrow>
                    (case RemoveAll w2 src of
                       (Some err, w3) \<Rightarrow> (Some (ErrorfW ''remove source after copy: %w'' [] err), w3)
                     | (None, w3) \<Rightarrow> (None, w3))))"

section \<open>MetadataReconciler\<close>

definition path_string :: "path \<Rightarrow> string" where
  "path_string p = (if p = [] then ''/'' else concat (map (\<lambda>c. CHR ''/'' # c) p))"



section \<open>FileCollector\<close>

record filePayload =
  Name :: string
  Path :: path
  Content :: string

definition defaultFileName :: "string \<Rightarrow> string" where
  "defaultFileName name = name @ ''.md''"

fun gatherFiles_loop ::
  "world \<Rightarrow> path \<Rightarrow> filePayload list \<Rightarrow> DirEntry list \<Rightarrow> go_error + filePayload list" where
  "gatherFiles_loop w dir files [] = Inr files"
| "gatherFiles_loop w dir files (entry # entries) =
     (case entry_Info w entry of
        Inl err \<Rightarrow> Inl (ErrorfW ''inspect %s: %w'' [entry_Name entry] err)
      | Inr info \<Rightarrow>
          if entry_Type entry AND ModeSymlink \<noteq> 0 \<and> IsDir (info_Mode info)
          then Inl (Errorf ''symlink %s targets a directory; gists cannot include directories''
                     [entry_Name entry])
          else if IsDir (info_Mode info)
          then Inl (Errorf ''subdirectory %s detected; gists only support flat file sets''
                     [entry_Name entry])
          else if HasPrefix (entry_Name entry) ''.''
          then gatherFiles_loop w dir files entries
          else if \<not> IsRegular (info_Mode info)
          then gatherFiles_loop w dir files entries
          else
            (let path = Join dir (entry_Name entry) in
             case ReadFile w path of
               Inl err \<Rightarrow> Inl (ErrorfW ''read %s: %w'' [entry_Name entry] err)
             | Inr content \<Rightarrow>
                 gatherFiles_loop w dir
                   (files @ [\<lparr>Name = entry_Name entry, Path = path, Content = content\<rparr>])
                   entries))"

text \<open>
  \<open>gatherFiles_entries\<close> is the body of \<^verbatim>\<open>gatherFiles\<close> from \<^verbatim>\<open>sort.Slice\<close> on, with the
  entries that \<^verbatim>\<open>os.ReadDir\<close> returned as an argument. \<^verbatim>\<open>sort.Slice\<close> is not stable;
  entries of one directory have different names, and then every sort gives the same list.
\<close>

definition gatherFiles_entries ::
  "world \<Rightarrow> path \<Rightarrow> string \<Rightarrow> DirEntry list \<Rightarrow> (go_error + filePayload list) \<times> world" where
  "gatherFiles_entries w dir displayName entries0 =
     (let entries = sort_key entry_Name entries0 in
      case gatherFiles_loop w dir [] entries of
        Inl err \<Rightarrow> (Inl err, w)
      | Inr files \<Rightarrow>
          if length files = 0 then
            (let name = defaultFileName displayName;
                 content = ''# '' @ displayName @ [CHR 0x0A];
                 path = Join dir name
             in case WriteFile w path content 0x1A4 of
                  (Some err, w') \<Rightarrow>
                    (Inl (ErrorfW ''bootstrap default file %s: %w'' [name] err), w')
                | (None, w') \<Rightarrow>
                    (Inr (files @ [\<lparr>Name = name, Path = path, Content = content\<rparr>]), w'))
          else (Inr files, w))"

definition gatherFiles :: "world \<Rightarrow> path \<Rightarrow> string \<Rightarrow> (go_error + filePayload list) \<times> world" where
  "gatherFiles w dir displayName =
     (case ReadDir w dir of
        Inl err \<Rightarrow> (Inl (ErrorfW ''read directory %s: %w'' [path_string dir] err), w)
      | Inr entries \<Rightarrow> gatherFiles_entries w dir displayName entries)"

section \<open>Concrete worlds\<close>

text \<open>
  Small file systems on which the program is run below. \<open>w_flat\<close> and \<open>w_dotlink\<close>
  hold a working directory \<open>/work\<close> with a symbolic link to the directory \<open>/tmp\<close>;
  \<open>w_clone\<close> holds a cloned gist under \<open>/tmp/clone\<close>, on another device than \<open>/work\<close>.
\<close>

definition w_flat :: world where
  "w_flat = \<lparr>root = Dir 0x1ED
      [(''tmp'', Dir 0x1FF []),
       (''work'', Dir 0x1ED
          [(''b.txt'', File 0x1A4 ''bee''), (''a.txt'', File 0x1A4 ''hello''),
           (''link'', Symlink [''tmp''])])],
     umask = 0x12, mounts = []\<rparr>"

definition w_dotlink :: world where
  "w_dotlink = \<lparr>root = Dir 0x1ED
      [(''tmp'', Dir 0x1FF []),
       (''work'', Dir 0x1ED
          [(''.cache'', Symlink [''tmp'']), (''a.txt'', File 0x1A4 ''hello'')])],
     umask = 0x12, mounts = []\<rparr>"

definition w_clone :: world where
  "w_clone = \<lparr>root = Dir 0x1ED
      [(''tmp'', Dir 0x1FF
          [(''clone'', Dir 0x1ED
             [(''.git'', Dir 0x1ED [(''HEAD'', File 0x1A4 ''ref'')]),
              (''.gitattributes'', File 0x1A4 ''* text''),
              (''.gitignore'', File 0x1A4 ''*.o''),
              (''a.txt'', File 0x1A4 ''hello'')])]),
       (''work'', Dir 0x1ED [(''a.txt'', File 0x1A4 ''hello'')])],
     umask = 0x12, mounts = [[''tmp'']]\<rparr>"




section \<open>Notions used in the proofs\<close>

text \<open>
  \<open>dir_at r q\<close>: the path \<open>q\<close>, followed literally from the root \<open>r\<close>, ends at a
  directory. \<open>grows r r'\<close>: every directory of \<open>r\<close> is a directory of \<open>r'\<close>, and the
  two trees have the same symbolic links; then every path that resolves in \<open>r\<close>
  resolves to the same place in \<open>r'\<close>.
\<close>

definition dir_at :: "node \<Rightarrow> path \<Rightarrow> bool" where
  "dir_at r q = (case lookup r q of Some (Dir m cs) \<Rightarrow> True | _ \<Rightarrow> False)"


definition grows :: "node \<Rightarrow> node \<Rightarrow> bool" where
  "grows r r' = ((\<forall>q. dir_at r q \<longrightarrow> dir_at r' q)
     \<and> (\<forall>q tgt. (lookup r q = Some (Symlink tgt)) = (lookup r' q = Some (Symlink tgt))))"


text \<open>
  Two paths are incomparable when neither is a prefix of the other. \<open>frame D r r'\<close>: the
  tree \<open>r'\<close> differs from \<open>r\<close> at most at and below the paths of \<open>D\<close>; what is at a path
  incomparable with all of them is unchanged, and a directory outside of them is still a
  directory. \<open>no_links_under r d\<close>: there is no symbolic link at or below \<open>d\<close>.
  \<open>touched from to S\<close>: the source and destination paths of the entries named in \<open>S\<close>.
\<close>

definition incomparable :: "path \<Rightarrow> path \<Rightarrow> bool" where
  "incomparable p q = (\<not> prefix p q \<and> \<not> prefix q p)"


definition frame :: "path set \<Rightarrow> node \<Rightarrow> node \<Rightarrow> bool" where
  "frame D r r' =
     ((\<forall>q. (\<forall>d\<in>D. incomparable d q) \<longrightarrow> lookup r' q = lookup r q)
      \<and> (\<forall>q. (\<forall>d\<in>D. \<not> prefix d q) \<longrightarrow> dir_at r q \<longrightarrow> dir_at r' q))"






text \<open>
  An entry that the collector's loop passes over: it can be inspected, it is no directory,
  and its name starts with a dot or it is no regular file.
\<close>

definition skipped :: "world \<Rightarrow> DirEntry \<Rightarrow> bool" where
  "skipped w entry =
     (case entry_Info w entry of
        Inl err \<Rightarrow> False
      | Inr info \<Rightarrow> \<not> IsDir (info_Mode info)
          \<and> (HasPrefix (entry_Name entry) ''.'' \<or> \<not> IsRegular (info_Mode info)))"


definition w_hidden :: world where
  "w_hidden = \<lparr>root = Dir 0x1ED
      [(''work'', Dir 0x1ED [(''proj'', Dir 0x1ED [(''.hidden'', File 0x1A4 ''secret'')])])],
     umask = 0x12, mounts = []\<rparr>"

definition w_socket :: world where
  "w_socket = \<lparr>root = Dir 0x1ED
      [(''work'', Dir 0x1ED [(''proj'', Dir 0x1ED [(''proj.md'', Special Socket 0x1ED)])])],
     umask = 0x12, mounts = []\<rparr>"

section \<open>Properties of the PathValidator\<close>

text \<open>
  C9. \<open>validateName\<close> rejects exactly the names that are empty, equal to \<open>..\<close>, contain
  a slash or a backslash, or start with \<open>-\<close>; every other name, \<open>.\<close> among them, is
  accepted. The validator is a function of the name alone: it takes no file system and
  returns none.
\<close>

theorem validateName_rejects_iff:
  "(validateName name \<noteq> None) =
     (name = '''' \<or> name = ''..'' \<or> CHR ''/'' \<in> set name \<or> CHR 0x5C \<in> set name
      \<or> (\<exists>rest. name = CHR ''-'' # rest))
   \<and> validateName ''.'' = None"
proof -
  have pre: "HasPrefix name ''-'' = (\<exists>rest. name = CHR ''-'' # rest)"
    by (cases name) (auto simp: HasPrefix_def)
  have sep: "ContainsAny name [CHR ''/'', CHR 0x5C]
      = (CHR ''/'' \<in> set name \<or> CHR 0x5C \<in> set name)"
    by (auto simp: ContainsAny_def list_ex_iff)
  have "(validateName name \<noteq> None) =
     (name = '''' \<or> name = ''..'' \<or> CHR ''/'' \<in> set name \<or> CHR 0x5C \<in> set name
      \<or> (\<exists>rest. name = CHR ''-'' # rest))"
    unfolding validateName_def pre sep by auto
  moreover have "validateName ''.'' = None"
    by (simp add: validateName_def)
  ultimately show ?thesis by simp
qed

section \<open>Properties of the file system\<close>

subsection \<open>Looking up after an update\<close>

lemma lookup_append:
  "lookup r (p @ q) = (case lookup r p of None \<Rightarrow> None | Some n \<Rightarrow> lookup n q)"
  by (induction r p rule: lookup.induct) (auto split: option.splits)

lemma lookup_Cons_Some:
  "lookup n (c # p) = Some x \<longleftrightarrow> (\<exists>m cs ch. n = Dir m cs \<and> map_of cs c = Some ch \<and> lookup ch p = Some x)"
  by (cases n) (auto split: option.splits)

lemma put_Cons_Dir:
  "put (c # p) v (Dir m cs) =
     (if p = [] then Dir m (case v of None \<Rightarrow> AList.delete c cs | Some n' \<Rightarrow> AList.update c n' cs)
      else case map_of cs c of None \<Rightarrow> Dir m cs
           | Some ch \<Rightarrow> Dir m (AList.update c (put p v ch) cs))"
  by (cases p) auto

lemma put_Cons_not_Dir: "\<not> is_Dir n \<Longrightarrow> put (c # p) v n = n"
  by (cases n; cases p) (auto simp: is_Dir_def)

lemma lookup_put_other:
  "\<not> prefix p q \<Longrightarrow> \<not> prefix q p \<Longrightarrow> lookup (put p v r) q = lookup r q"
proof (induction p arbitrary: q r)
  case Nil
  then show ?case by simp
next
  case (Cons c p)
  from Cons.prems obtain d q' where q: "q = d # q'" by (cases q) auto
  show ?case
  proof (cases r)
    case (Dir m cs)
    show ?thesis
    proof (cases "d = c")
      case True
      with Cons.prems q have np: "\<not> prefix p q'" "\<not> prefix q' p" by auto
      then have "p \<noteq> []" by auto
      with True q Dir Cons.IH[OF np] show ?thesis
        by (auto simp: put_Cons_Dir update_conv' split: option.splits)
    next
      case False
      with q Dir show ?thesis
        by (auto simp: put_Cons_Dir update_conv' delete_conv' split: option.splits)
    qed
  qed (simp_all add: put_Cons_not_Dir is_Dir_def)
qed

lemma lookup_put_below:
  assumes "lookup r (butlast p) = Some (Dir m cs)" "p \<noteq> []"
  shows "lookup (put p v r) (p @ q) = (case v of None \<Rightarrow> None | Some n \<Rightarrow> lookup n q)"
  using assms
proof (induction p arbitrary: r)
  case Nil
  then show ?case by simp
next
  case (Cons c p)
  show ?case
  proof (cases "p = []")
    case True
    with Cons.prems show ?thesis
      by (auto simp: update_conv' delete_conv' split: option.splits)
  next
    case False
    with Cons.prems obtain m' cs' ch where r: "r = Dir m' cs'" "map_of cs' c = Some ch"
      "lookup ch (butlast p) = Some (Dir m cs)"
      by (auto simp: lookup_Cons_Some)
    with False Cons.IH[of ch] show ?thesis
      by (auto simp: put_Cons_Dir update_conv')
  qed
qed

lemma lookup_put_same:
  assumes "lookup r (butlast p) = Some (Dir m cs)" "p \<noteq> []"
  shows "lookup (put p v r) p = v"
  using lookup_put_below[OF assms, of v "[]"] by (cases v) auto

lemma lookup_put_above:
  "q \<noteq> [] \<Longrightarrow> lookup (put (p @ q) v r) p = map_option (put q v) (lookup r p)"
proof (induction p arbitrary: r)
  case Nil
  then show ?case by simp
next
  case (Cons c p)
  show ?case
  proof (cases r)
    case (Dir m cs)
    with Cons show ?thesis
      by (auto simp: put_Cons_Dir update_conv' split: option.splits)
  qed (simp_all add: put_Cons_not_Dir is_Dir_def)
qed

lemma put_is_Dir: "p \<noteq> [] \<Longrightarrow> is_Dir (put p v n) = is_Dir n"
  by (cases p; cases n) (auto simp: put_Cons_Dir is_Dir_def split: option.splits)



subsection \<open>Path resolution\<close>

lemma dir_at_child:
  "lookup r cur = Some (Dir m cs) \<Longrightarrow> map_of cs c = lookup r (cur @ [c])"
  by (simp add: lookup_append split: option.splits)

text \<open>One step of \<open>walk\<close>, in terms of lookups only.\<close>

lemma walk_step:
  "walk r follow h cur (c # rest) =
     (if \<not> dir_at r cur then (if lookup r cur = None then Inl ENOENT else Inl ENOTDIR)
      else case lookup r (cur @ [c]) of
             Some (Symlink tgt) \<Rightarrow>
               if rest = [] \<and> \<not> follow then Inr (cur @ [c])
               else (case h of 0 \<Rightarrow> Inl ELOOP | Suc h' \<Rightarrow> walk r follow h' [] (tgt @ rest))
           | _ \<Rightarrow> walk r follow h (cur @ [c]) rest)"
proof (cases "lookup r cur")
  case None
  then show ?thesis by (simp add: dir_at_def)
next
  case (Some n)
  show ?thesis
  proof (cases n)
    case (Dir m cs)
    with Some dir_at_child[of r cur m cs c] show ?thesis
      by (simp add: dir_at_def)
  qed (use Some in \<open>simp_all add: dir_at_def\<close>)
qed

declare walk.simps(2) [simp del]

lemma walk_grows:
  "grows r r' \<Longrightarrow> walk r follow h cur rest = Inr q \<Longrightarrow> walk r' follow h cur rest = Inr q"
proof (induction r follow h cur rest rule: walk.induct)
  case (1 r follow h cur)
  then show ?case by simp
next
  case (2 r follow h cur c rest)
  note g = \<open>grows r r'\<close>
  note run = \<open>walk r follow h cur (c # rest) = Inr q\<close>
  from run have d: "dir_at r cur"
    by (auto simp: walk_step split: if_splits)
  with g have d': "dir_at r' cur" by (auto simp: grows_def)
  from d obtain m cs where l: "lookup r cur = Some (Dir m cs)"
    by (auto simp: dir_at_def split: option.splits node.splits)
  show ?case
  proof (cases "\<exists>tgt. lookup r (cur @ [c]) = Some (Symlink tgt)")
    case True
    then obtain tgt where t: "lookup r (cur @ [c]) = Some (Symlink tgt)" by blast
    with g have t': "lookup r' (cur @ [c]) = Some (Symlink tgt)" by (auto simp: grows_def)
    from l t have mc: "map_of cs c = Some (Symlink tgt)" by (simp add: dir_at_child)
    show ?thesis
    proof (cases "rest = [] \<and> \<not> follow")
      case True
      with run t t' d d' show ?thesis by (simp add: walk_step)
    next
      case False
      with run t d obtain h' where h: "h = Suc h'"
        and w: "walk r follow h' [] (tgt @ rest) = Inr q"
        by (auto simp: walk_step split: nat.splits)
      from "2.IH"(4)[OF l refl mc refl False h g w]
      have "walk r' follow h' [] (tgt @ rest) = Inr q" .
      with False t' d' h show ?thesis by (auto simp: walk_step)
    qed
  next
    case False
    with g have nl': "\<not> (\<exists>tgt. lookup r' (cur @ [c]) = Some (Symlink tgt))"
      by (auto simp: grows_def)
    from False l have mc: "\<And>tgt. map_of cs c \<noteq> Some (Symlink tgt)" by (simp add: dir_at_child)
    from run False d have w: "walk r follow h (cur @ [c]) rest = Inr q"
      by (auto simp: walk_step split: option.splits node.splits)
    have "walk r' follow h (cur @ [c]) rest = Inr q"
    proof (cases "map_of cs c")
      case None
      from "2.IH"(1)[OF l refl None g w] show ?thesis .
    next
      case (Some ch)
      show ?thesis
      proof (cases ch)
        case (File fm fc)
        from "2.IH"(2)[OF l refl Some File g w] show ?thesis .
      next
        case (Dir dm dcs)
        from "2.IH"(3)[OF l refl Some Dir g w] show ?thesis .
      next
        case (Symlink tgt)
        with Some mc show ?thesis by simp
      next
        case (Special k sm)
        from "2.IH"(5)[OF l refl Some Special g w] show ?thesis .
      qed
    qed
    with nl' d' show ?thesis
      by (auto simp: walk_step split: option.splits node.splits)
  qed
qed


lemma walk_cases_induct [case_names Nil Cons]:
  assumes nil: "\<And>h cur. P h cur []"
    and step: "\<And>h cur c rest.
      (\<And>tgt h'. lookup r (cur @ [c]) = Some (Symlink tgt) \<Longrightarrow> h = Suc h' \<Longrightarrow> P h' [] (tgt @ rest)) \<Longrightarrow>
      ((\<And>tgt. lookup r (cur @ [c]) \<noteq> Some (Symlink tgt)) \<Longrightarrow> P h (cur @ [c]) rest) \<Longrightarrow>
      P h cur (c # rest)"
  shows "P h cur rest"
proof -
  have base: "P 0 cur rest" for cur rest
  proof (induction rest arbitrary: cur)
    case Nil
    show ?case by (rule nil)
  next
    case (Cons c rest)
    show ?case by (rule step) (simp, rule Cons)
  qed
  have "\<forall>cur rest. P h cur rest"
  proof (induction h)
    case 0
    show ?case using base by blast
  next
    case (Suc h)
    have "P (Suc h) cur rest" for cur rest
    proof (induction rest arbitrary: cur)
      case Nil
      show ?case by (rule nil)
    next
      case (Cons c rest)
      show ?case
      proof (rule step)
        fix tgt h'
        assume "Suc h = Suc h'"
        then show "P h' [] (tgt @ rest)" using Suc by simp
      next
        show "P (Suc h) (cur @ [c]) rest" by (rule Cons)
      qed
    qed
    then show ?case by blast
  qed
  then show ?thesis by blast
qed

lemma walk_result_parent:
  "walk r follow h cur rest = Inr q \<Longrightarrow> cur = [] \<or> dir_at r (butlast cur) \<Longrightarrow>
     q = [] \<or> dir_at r (butlast q)"
proof (induction h cur rest rule: walk_cases_induct[where r = r])
  case (Nil h cur)
  then show ?case by simp
next
  case (Cons h cur c rest)
  from Cons.prems(1) have d: "dir_at r cur"
    by (auto simp: walk_step split: if_splits)
  show ?case
  proof (cases "\<exists>tgt. lookup r (cur @ [c]) = Some (Symlink tgt)")
    case True
    then obtain tgt where t: "lookup r (cur @ [c]) = Some (Symlink tgt)" by blast
    show ?thesis
    proof (cases "rest = [] \<and> \<not> follow")
      case True
      with Cons.prems(1) t d show ?thesis by (auto simp: walk_step)
    next
      case False
      with Cons.prems(1) t d obtain h' where h: "h = Suc h'"
        and w: "walk r follow h' [] (tgt @ rest) = Inr q"
        by (auto simp: walk_step split: nat.splits)
      from Cons.IH(1)[OF t h w] show ?thesis by simp
    qed
  next
    case False
    with Cons.prems(1) d have w: "walk r follow h (cur @ [c]) rest = Inr q"
      by (auto simp: walk_step split: option.splits node.splits)
    from Cons.IH(2)[OF _ w] False d show ?thesis by simp
  qed
qed

lemma put_no_parent:
  "p \<noteq> [] \<Longrightarrow> \<not> dir_at r (butlast p) \<Longrightarrow> put p v r = r"
proof (induction p arbitrary: r)
  case Nil
  then show ?case by simp
next
  case (Cons c p)
  show ?case
  proof (cases r)
    case (Dir m cs)
    show ?thesis
    proof (cases "p = []")
      case True
      with Cons.prems Dir show ?thesis by (simp add: dir_at_def)
    next
      case False
      show ?thesis
      proof (cases "map_of cs c")
        case None
        with Dir False show ?thesis by (simp add: put_Cons_Dir)
      next
        case (Some ch)
        with Cons.prems Dir False have "\<not> dir_at ch (butlast p)"
          by (simp add: dir_at_def)
        from Cons.IH[OF False this] Some Dir False show ?thesis
          by (simp add: put_Cons_Dir update_triv)
      qed
    qed
  qed (simp_all add: put_Cons_not_Dir is_Dir_def)
qed

lemma lookup_put_prefix:
  assumes "p \<noteq> []" "dir_at r (butlast p)"
  shows "lookup (put p v r) (p @ q) = (case v of None \<Rightarrow> None | Some n \<Rightarrow> lookup n q)"
  using assms lookup_put_below[of r p _ _ v q]
  by (auto simp: dir_at_def split: option.splits node.splits)

lemma lookup_File [simp]:
  "lookup (File m c) q = (if q = [] then Some (File m c) else None)"
  by (cases q) auto

lemma put_File_grows:
  assumes "lookup r cp = None \<or> (\<exists>m c. lookup r cp = Some (File m c))"
  shows "grows r (put cp (Some (File m' c')) r)"
proof (cases "cp = []")
  case True
  with assms show ?thesis by (auto simp: grows_def dir_at_def)
next
  case False
  show ?thesis
  proof (cases "dir_at r (butlast cp)")
    case False
    with \<open>cp \<noteq> []\<close> show ?thesis by (simp add: put_no_parent grows_def)
  next
    case True
    let ?r' = "put cp (Some (File m' c')) r"
    have below: "\<And>q. lookup ?r' (cp @ q) = lookup (File m' c') q"
      using lookup_put_prefix[OF \<open>cp \<noteq> []\<close> True] by simp
    have old_below: "\<And>q. lookup r (cp @ q) = None \<or> (\<exists>m c. lookup r (cp @ q) = Some (File m c))"
      using assms by (auto simp: lookup_append)
    have new_below: "\<And>q. lookup ?r' (cp @ q) = None \<or> (\<exists>m c. lookup ?r' (cp @ q) = Some (File m c))"
      unfolding below by auto
    {
      fix q
      consider (below) q' where "q = cp @ q'" | (above) q' where "cp = q @ q'" "q' \<noteq> []"
        | (other) "\<not> prefix cp q" "\<not> prefix q cp"
        by (metis prefix_def append_Nil2)
      then have "(dir_at r q \<longrightarrow> dir_at ?r' q)
         \<and> (\<forall>tgt. (lookup r q = Some (Symlink tgt)) = (lookup ?r' q = Some (Symlink tgt)))"
      proof cases
        case below
        with old_below[of q'] new_below[of q'] show ?thesis
          by (auto simp: dir_at_def)
      next
        case above
        have "lookup ?r' q = map_option (put q' (Some (File m' c'))) (lookup r q)"
          using lookup_put_above[OF above(2), of q _ r] above(1) by simp
        moreover have "dir_at x q = (\<exists>n. lookup x q = Some n \<and> is_Dir n)" for x
          by (auto simp: dir_at_def is_Dir_def split: option.splits node.splits)
        moreover have "\<not> is_Dir (Symlink tgt)" for tgt by (simp add: is_Dir_def)
        moreover have "is_Dir (put q' (Some (File m' c')) n) = is_Dir n" for n
          using above(2) by (rule put_is_Dir)
        moreover have "\<not> is_Dir n \<Longrightarrow> put q' (Some (File m' c')) n = n" for n
          using above(2) by (cases q') (auto simp: put_Cons_not_Dir)
        ultimately show ?thesis
          by (cases "lookup r q") (auto, metis+)
      next
        case other
        then show ?thesis by (simp add: lookup_put_other dir_at_def)
      qed
    }
    then show ?thesis by (simp add: grows_def)
  qed
qed


subsection \<open>Writing a file\<close>

lemma resolve_parent:
  assumes "resolve w follow p = Inr cp"
  shows "cp = [] \<or> dir_at (root w) (butlast cp)"
proof -
  from assms have "walk (root w) follow 40 [] p = Inr cp"
    by (simp add: resolve_def split: if_splits)
  from walk_result_parent[OF this] show ?thesis by simp
qed

lemma lookup_put_at:
  assumes "cp = [] \<or> dir_at r (butlast cp)"
  shows "lookup (put cp (Some n) r) cp = Some n"
proof (cases "cp = []")
  case True
  then show ?thesis by simp
next
  case False
  with assms lookup_put_prefix[of cp r "Some n" "[]"] show ?thesis by simp
qed

lemma grows_dir_at: "grows r r' \<Longrightarrow> dir_at r q \<Longrightarrow> dir_at r' q"
  by (simp add: grows_def)

lemma WriteFile_ok:
  assumes "WriteFile w p content perm = (None, w')"
  shows "\<exists>cp m. resolve w True p = Inr cp \<and> resolve w' True p = Inr cp
           \<and> lookup (root w') cp = Some (File m content)"
proof -
  from assms obtain cp where cp: "resolve w True p = Inr cp"
    by (auto simp: WriteFile_def OpenFile_create_trunc_def split: sum.splits)
  let ?r = "root w"
  from assms cp have old: "lookup ?r cp = None \<or> (\<exists>m c. lookup ?r cp = Some (File m c))"
    by (auto simp: WriteFile_def OpenFile_create_trunc_def split: option.splits node.splits)
  then obtain m0 where w': "handle_Write (set_node w cp (Some (File m0 []))) cp content = (None, w')"
    using assms cp
    by (auto simp: WriteFile_def OpenFile_create_trunc_def split: option.splits node.splits)
  let ?r1 = "put cp (Some (File m0 [])) ?r"
  have par: "cp = [] \<or> dir_at ?r (butlast cp)" by (rule resolve_parent[OF cp])
  have l1: "lookup ?r1 cp = Some (File m0 [])" by (rule lookup_put_at[OF par])
  have g1: "grows ?r ?r1" by (rule put_File_grows[OF old])
  let ?r2 = "put cp (Some (File m0 content)) ?r1"
  from w' l1 have rw': "root w' = ?r2"
    by (auto simp: handle_Write_def set_node_def)
  have g2: "grows ?r1 ?r2" by (rule put_File_grows) (simp add: l1)
  have par1: "cp = [] \<or> dir_at ?r1 (butlast cp)"
    using par grows_dir_at[OF g1] by blast
  have l2: "lookup ?r2 cp = Some (File m0 content)" by (rule lookup_put_at[OF par1])
  from cp have wk: "walk ?r True 40 [] p = Inr cp" and len: "\<not> PATH_MAX \<le> path_len p"
    by (auto simp: resolve_def split: if_splits)
  from walk_grows[OF g2 walk_grows[OF g1 wk]] len rw'
  have "resolve w' True p = Inr cp" by (simp add: resolve_def)
  with cp l2 rw' show ?thesis by auto
qed

lemma ReadFile_after_WriteFile:
  assumes "WriteFile w p content perm = (None, w')"
  shows "ReadFile w' p = Inr content"
  using WriteFile_ok[OF assms] by (auto simp: ReadFile_def node_at_def)

subsection \<open>Paths through directories only\<close>

lemma dir_at_iff: "dir_at r q = (\<exists>m cs. lookup r q = Some (Dir m cs))"
  by (auto simp: dir_at_def split: option.splits node.splits)

lemma dir_at_prefix: "dir_at r (p @ q) \<Longrightarrow> dir_at r p"
proof (cases q)
  case Nil
  then show "dir_at r (p @ q) \<Longrightarrow> dir_at r p" by simp
next
  case (Cons c q')
  assume "dir_at r (p @ q)"
  with Cons obtain n where "lookup r p = Some n" "lookup n (c # q') \<noteq> None"
    by (auto simp: dir_at_iff lookup_append split: option.splits)
  then show "dir_at r p" by (cases n) (auto simp: dir_at_iff)
qed


lemma walk_plain_dir_gen:
  "dir_at r (cur @ rest) \<Longrightarrow> walk r follow h cur rest = Inr (cur @ rest)"
proof (induction rest arbitrary: cur)
  case Nil
  then show ?case by simp
next
  case (Cons c rest)
  from Cons.prems have d: "dir_at r cur" using dir_at_prefix by blast
  from Cons.prems have dc: "dir_at r (cur @ [c])" using dir_at_prefix[of r "cur @ [c]" rest] by simp
  then have nl: "\<And>tgt. lookup r (cur @ [c]) \<noteq> Some (Symlink tgt)" by (auto simp: dir_at_iff)
  from Cons.IH[of "cur @ [c]"] Cons.prems
  have "walk r follow h (cur @ [c]) rest = Inr (cur @ c # rest)" by simp
  with d nl show ?case
    by (auto simp: walk_step split: option.splits node.splits)
qed


lemma resolve_dir:
  assumes "dir_at (root w) d"
  shows "resolve w follow d = (if PATH_MAX \<le> path_len d then Inl ENAMETOOLONG else Inr d)"
  using walk_plain_dir_gen[of "root w" "[]" d follow 40] assms by (simp add: resolve_def)



lemma frame_refl [simp]: "frame D r r"
  by (simp add: frame_def)







subsection \<open>File modes\<close>

lemma bit_one_shift: "k < 32 \<Longrightarrow> bit (push_bit k (1::32 word)) n = (n = k)"
  by (auto simp only: bit_push_bit_iff bit_1_iff possible_bit_word len_of_numeral_defs)

lemma ModePerm_mask: "ModePerm = mask 9"
  unfolding ModePerm_def by (simp add: mask_eq_exp_minus_1)

lemma ModeDir_bit: "bit ModeDir n = (n = 31)"
  unfolding ModeDir_def by (rule bit_one_shift) simp

lemma ModeSymlink_bit: "bit ModeSymlink n = (n = 27)"
  unfolding ModeSymlink_def by (rule bit_one_shift) simp

lemma ModeDevice_bit: "bit ModeDevice n = (n = 26)"
  unfolding ModeDevice_def by (rule bit_one_shift) simp

lemma ModeNamedPipe_bit: "bit ModeNamedPipe n = (n = 25)"
  unfolding ModeNamedPipe_def by (rule bit_one_shift) simp

lemma ModeSocket_bit: "bit ModeSocket n = (n = 24)"
  unfolding ModeSocket_def by (rule bit_one_shift) simp

lemma ModeCharDevice_bit: "bit ModeCharDevice n = (n = 21)"
  unfolding ModeCharDevice_def by (rule bit_one_shift) simp

lemma ModeIrregular_bit: "bit ModeIrregular n = (n = 19)"
  unfolding ModeIrregular_def by (rule bit_one_shift) simp

lemma ModePerm_bit: "bit ModePerm n = (n < 9)"
  unfolding ModePerm_mask by (auto simp: bit_mask_iff)

lemmas Mode_bits = ModeDir_bit ModeSymlink_bit ModeDevice_bit ModeNamedPipe_bit ModeSocket_bit
  ModeCharDevice_bit ModeIrregular_bit ModePerm_bit

lemma IsDir_mode_of: "IsDir (mode_of n) = is_Dir n"
proof (cases n)
  case (Dir m cs)
  have "bit (mode_of n AND ModeDir) 31"
    by (simp add: Dir bit_and_iff bit_or_iff Mode_bits)
  then have "mode_of n AND ModeDir \<noteq> 0" by auto
  then show ?thesis by (simp add: IsDir_def is_Dir_def Dir)
next
  case (File m c)
  have "mode_of n AND ModeDir = 0"
    by (rule bit_eqI) (auto simp: File bit_and_iff bit_or_iff Mode_bits)
  then show ?thesis by (simp add: IsDir_def is_Dir_def File)
next
  case (Symlink t)
  have "mode_of n AND ModeDir = 0"
    by (rule bit_eqI) (auto simp: Symlink bit_and_iff bit_or_iff Mode_bits)
  then show ?thesis by (simp add: IsDir_def is_Dir_def Symlink)
next
  case (Special k m)
  have "mode_of n AND ModeDir = 0"
    by (rule bit_eqI) (cases k; auto simp: Special special_bits_def bit_and_iff bit_or_iff Mode_bits)
  then show ?thesis by (simp add: IsDir_def is_Dir_def Special)
qed

subsection \<open>Operations at a child of a directory\<close>

lemma set_node_simps [simp]:
  "root (set_node w p v) = put p v (root w)"
  "umask (set_node w p v) = umask w"
  "mounts (set_node w p v) = mounts w"
  by (simp_all add: set_node_def)





subsection \<open>RemoveAll\<close>


subsection \<open>Rename\<close>





subsection \<open>MkdirAll\<close>

declare mode_of.simps [simp del]

lemma node_at_dir:
  "dir_at (root w) p \<Longrightarrow> node_at w follow p = Inr (cp, n) \<Longrightarrow> cp = p \<and> is_Dir n"
  by (auto simp: node_at_def resolve_dir dir_at_iff is_Dir_def split: if_splits)

lemma Stat_dir_at:
  assumes "dir_at (root w) p" "Stat w p = Inr fi"
  shows "IsDir (info_Mode fi)"
  using assms node_at_dir[OF assms(1), of True]
  by (auto simp: Stat_def IsDir_mode_of split: sum.splits)

lemma Lstat_dir_at:
  assumes "dir_at (root w) p" "Lstat w p = Inr fi"
  shows "IsDir (info_Mode fi)"
  using assms node_at_dir[OF assms(1), of False]
  by (auto simp: Lstat_def IsDir_mode_of split: sum.splits)



subsection \<open>Creating directories and files below a directory\<close>
















section \<open>Properties of the FileCollector\<close>

subsection \<open>Order of the payloads\<close>

lemma gatherFiles_loop_Cons_cases:
  assumes "gatherFiles_loop w dir files (e # es) = Inr files'"
  shows "gatherFiles_loop w dir files es = Inr files' \<or>
    (\<exists>content. gatherFiles_loop w dir
        (files @ [\<lparr>Name = entry_Name e, Path = Join dir (entry_Name e), Content = content\<rparr>]) es
      = Inr files')"
  using assms by (auto simp: Let_def split: sum.splits if_splits)

declare gatherFiles_loop.simps(2) [simp del]

lemma gatherFiles_loop_names:
  assumes "gatherFiles_loop w dir files es = Inr files'"
    and "sorted_wrt (<) (map entry_Name es)"
  shows "\<exists>ks. map Name files' = map Name files @ ks \<and> sorted_wrt (<) ks
           \<and> set ks \<subseteq> set (map entry_Name es)"
  using assms
proof (induction es arbitrary: files)
  case Nil
  then show ?case by simp
next
  case (Cons e es)
  from Cons.prems(2) have srt: "sorted_wrt (<) (map entry_Name es)"
    and low: "\<forall>n \<in> set (map entry_Name es). entry_Name e < n"
    by auto
  from gatherFiles_loop_Cons_cases[OF Cons.prems(1)] show ?case
  proof (elim disjE exE)
    assume "gatherFiles_loop w dir files es = Inr files'"
    from Cons.IH[OF this srt] show ?thesis by auto
  next
    fix content
    assume "gatherFiles_loop w dir
        (files @ [\<lparr>Name = entry_Name e, Path = Join dir (entry_Name e), Content = content\<rparr>]) es
      = Inr files'"
    from Cons.IH[OF this srt] obtain ks where
      ks: "map Name files' = map Name files @ entry_Name e # ks" "sorted_wrt (<) ks"
        "set ks \<subseteq> set (map entry_Name es)"
      by auto
    with low have "sorted_wrt (<) (entry_Name e # ks)" by auto
    with ks show ?thesis by auto
  qed
qed

lemma ReadDir_names:
  assumes "ReadDir w dir = Inr entries"
  shows "sorted (map entry_Name entries) \<and> distinct (map entry_Name entries)"
proof -
  from assms obtain cs where "entries = map (\<lambda>name. \<lparr>entry_Name = name,
        entry_Type = mode_of (the (map_of cs name)) AND ModeType, entry_dir = dir\<rparr>)
      (sort (remdups (map fst cs)))"
    by (auto simp: ReadDir_def split: sum.splits node.splits prod.splits)
  then have "map entry_Name entries = sort (remdups (map fst cs))"
    by (simp add: comp_def)
  then show ?thesis by simp
qed

lemma gatherFiles_entries_sorted:
  assumes "gatherFiles_entries w dir displayName entries0 = (Inr files, w')"
    and "distinct (map entry_Name entries0)"
  shows "sorted_wrt (<) (map Name files)"
proof -
  let ?es = "sort_key entry_Name entries0"
  have srt: "sorted_wrt (<) (map entry_Name ?es)"
    using assms(2) by (simp add: strict_sorted_iff distinct_map inj_on_def) 
  show ?thesis
  proof (cases "gatherFiles_loop w dir [] ?es")
    case (Inl err)
    with assms(1) show ?thesis by (simp add: gatherFiles_entries_def)
  next
    case (Inr fs)
    from gatherFiles_loop_names[OF Inr srt] have s: "sorted_wrt (<) (map Name fs)" by auto
    show ?thesis
    proof (cases "fs = []")
      case True
      with Inr assms(1) show ?thesis
        by (auto simp: gatherFiles_entries_def Let_def split: prod.splits option.splits)
    next
      case False
      with Inr assms(1) s show ?thesis
        by (auto simp: gatherFiles_entries_def Let_def)
    qed
  qed
qed

lemma gatherFiles_entries_order:
  assumes "distinct (map entry_Name es)" "distinct (map entry_Name es')" "set es = set es'"
  shows "gatherFiles_entries w dir displayName es = gatherFiles_entries w dir displayName es'"
proof -
  have inj: "inj_on entry_Name (set es)" using assms(1) by (simp add: distinct_map)
  have "sort_key entry_Name es = sort_key entry_Name es'"
  proof (rule map_sorted_distinct_set_unique[where f = entry_Name])
    show "inj_on entry_Name (set (sort_key entry_Name es) \<union> set (sort_key entry_Name es'))"
      using inj assms(3) by simp
    show "distinct (map entry_Name (sort_key entry_Name es))"
      using assms(1) by (simp add: distinct_map)
    show "distinct (map entry_Name (sort_key entry_Name es'))"
      using assms(2) by (simp add: distinct_map) 
  qed (use assms(3) in simp_all)
  then show ?thesis by (simp add: gatherFiles_entries_def)
qed

text \<open>
  C7. The payloads that \<open>gatherFiles\<close> returns are in strictly ascending order of name.
  The order in which the directory was enumerated does not matter: two enumerations of the
  same entries give the same result.
\<close>

theorem gatherFiles_sorted_by_name:
  "(gatherFiles w dir displayName = (Inr files, w') \<longrightarrow> sorted_wrt (<) (map Name files))
   \<and> (distinct (map entry_Name es) \<and> distinct (map entry_Name es') \<and> set es = set es' \<longrightarrow>
        gatherFiles_entries w dir displayName es = gatherFiles_entries w dir displayName es')"
proof (intro conjI impI)
  assume g: "gatherFiles w dir displayName = (Inr files, w')"
  then obtain entries where r: "ReadDir w dir = Inr entries"
    and e: "gatherFiles_entries w dir displayName entries = (Inr files, w')"
    by (auto simp: gatherFiles_def split: sum.splits)
  from gatherFiles_entries_sorted[OF e] ReadDir_names[OF r]
  show "sorted_wrt (<) (map Name files)" by simp
next
  assume "distinct (map entry_Name es) \<and> distinct (map entry_Name es') \<and> set es = set es'"
  then show "gatherFiles_entries w dir displayName es = gatherFiles_entries w dir displayName es'"
    using gatherFiles_entries_order by blast
qed

theorem gatherFiles_sorted_by_name_witness:
  "gatherFiles w_flat [''work''] ''work'' =
      (Inr [\<lparr>Name = ''a.txt'', Path = [''work'', ''a.txt''], Content = ''hello''\<rparr>,
            \<lparr>Name = ''b.txt'', Path = [''work'', ''b.txt''], Content = ''bee''\<rparr>], w_flat)
   \<and> sorted_wrt (<) [''a.txt'', ''b.txt'']
   \<and> gatherFiles_entries w_flat [''work''] ''work''
         [\<lparr>entry_Name = ''b.txt'', entry_Type = 0, entry_dir = [''work'']\<rparr>,
          \<lparr>entry_Name = ''a.txt'', entry_Type = 0, entry_dir = [''work'']\<rparr>]
       = gatherFiles_entries w_flat [''work''] ''work''
         [\<lparr>entry_Name = ''a.txt'', entry_Type = 0, entry_dir = [''work'']\<rparr>,
          \<lparr>entry_Name = ''b.txt'', entry_Type = 0, entry_dir = [''work'']\<rparr>]"
proof -
  let ?a = "\<lparr>entry_Name = ''a.txt'', entry_Type = 0, entry_dir = [''work'']\<rparr>"
  let ?b = "\<lparr>entry_Name = ''b.txt'', entry_Type = 0, entry_dir = [''work'']\<rparr>"
  let ?files = "[\<lparr>Name = ''a.txt'', Path = [''work'', ''a.txt''], Content = ''hello''\<rparr>,
            \<lparr>Name = ''b.txt'', Path = [''work'', ''b.txt''], Content = ''bee''\<rparr>]"
  have g: "gatherFiles w_flat [''work''] ''work'' = (Inr ?files, w_flat)"
    by code_simp
  have d: "distinct (map entry_Name [?b, ?a]) \<and> distinct (map entry_Name [?a, ?b])
      \<and> set [?b, ?a] = set [?a, ?b]"
    by auto
  from gatherFiles_sorted_by_name[of w_flat "[''work'']" "''work''" ?files w_flat "[?b, ?a]" "[?a, ?b]"]
    g d show ?thesis by simp
qed

subsection \<open>An empty collection\<close>

lemma gatherFiles_loop_skipped:
  "\<forall>e \<in> set es. skipped w e \<Longrightarrow> gatherFiles_loop w dir files es = Inr files"
  by (induction es) (auto simp: skipped_def gatherFiles_loop.simps(2) split: sum.splits)

text \<open>
  C6, as amended. In a directory all of whose entries are passed over, \<open>gatherFiles\<close>
  writes \<open><displayName>.md\<close> with the single line \<open># <displayName>\<close>. When the write
  succeeds, it returns exactly one payload, with that name and that content, and reading
  the file back from the new world gives the content. When the write fails, it returns
  the write's error and no payload.
\<close>

theorem gatherFiles_bootstrap:
  assumes "ReadDir w dir = Inr entries"
    and "\<forall>e \<in> set entries. skipped w e"
    and "WriteFile w (Join dir (displayName @ ''.md'')) (''# '' @ displayName @ [CHR 0x0A]) 0x1A4
           = (werr, w')"
  shows "(werr = None \<longrightarrow>
            gatherFiles w dir displayName =
              (Inr [\<lparr>Name = displayName @ ''.md'', Path = Join dir (displayName @ ''.md''),
                     Content = ''# '' @ displayName @ [CHR 0x0A]\<rparr>], w')
            \<and> ReadFile w' (Join dir (displayName @ ''.md'')) = Inr (''# '' @ displayName @ [CHR 0x0A]))
       \<and> (\<forall>err. werr = Some err \<longrightarrow>
            gatherFiles w dir displayName =
              (Inl (ErrorfW ''bootstrap default file %s: %w'' [displayName @ ''.md''] err), w'))"
proof -
  have "\<forall>e \<in> set (sort_key entry_Name entries). skipped w e"
    using assms(2) by simp
  then have loop: "gatherFiles_loop w dir [] (sort_key entry_Name entries) = Inr []"
    by (rule gatherFiles_loop_skipped)
  have g: "gatherFiles w dir displayName =
    (case werr of Some err \<Rightarrow>
        (Inl (ErrorfW ''bootstrap default file %s: %w'' [displayName @ ''.md''] err), w')
     | None \<Rightarrow> (Inr [\<lparr>Name = displayName @ ''.md'', Path = Join dir (displayName @ ''.md''),
                     Content = ''# '' @ displayName @ [CHR 0x0A]\<rparr>], w'))"
    using assms(1,3) loop
    by (cases werr) (simp_all add: gatherFiles_def gatherFiles_entries_def defaultFileName_def Let_def)
  show ?thesis
  proof (cases werr)
    case None
    with assms(3) ReadFile_after_WriteFile g show ?thesis by auto
  next
    case (Some err)
    with g show ?thesis by simp
  qed
qed

theorem gatherFiles_bootstrap_witness:
  "gatherFiles w_hidden [''work'', ''proj''] ''proj'' =
     (Inr [\<lparr>Name = ''proj.md'', Path = [''work'', ''proj'', ''proj.md''],
            Content = ''# proj'' @ [CHR 0x0A]\<rparr>],
      \<lparr>root = Dir 0x1ED
        [(''work'', Dir 0x1ED [(''proj'', Dir 0x1ED
           [(''.hidden'', File 0x1A4 ''secret''),
            (''proj.md'', File 0x1A4 (''# proj'' @ [CHR 0x0A]))])])],
       umask = 0x12, mounts = []\<rparr>)
   \<and> ReadFile \<lparr>root = Dir 0x1ED
        [(''work'', Dir 0x1ED [(''proj'', Dir 0x1ED
           [(''.hidden'', File 0x1A4 ''secret''),
            (''proj.md'', File 0x1A4 (''# proj'' @ [CHR 0x0A]))])])],
       umask = 0x12, mounts = []\<rparr> [''work'', ''proj'', ''proj.md''] = Inr (''# proj'' @ [CHR 0x0A])"
proof -
  let ?w' = "\<lparr>root = Dir 0x1ED
        [(''work'', Dir 0x1ED [(''proj'', Dir 0x1ED
           [(''.hidden'', File 0x1A4 ''secret''),
            (''proj.md'', File 0x1A4 (''# proj'' @ [CHR 0x0A]))])])],
       umask = 0x12, mounts = []\<rparr>"
  let ?e = "\<lparr>entry_Name = ''.hidden'', entry_Type = 0, entry_dir = [''work'', ''proj'']\<rparr>"
  have r: "ReadDir w_hidden [''work'', ''proj''] = Inr [?e]" by code_simp
  have s: "\<forall>e \<in> set [?e]. skipped w_hidden e" by code_simp
  have wf: "WriteFile w_hidden (Join [''work'', ''proj''] (''proj'' @ ''.md''))
      (''# '' @ ''proj'' @ [CHR 0x0A]) 0x1A4 = (None, ?w')" by code_simp
  from gatherFiles_bootstrap[OF r s wf] show ?thesis by (simp add: Join_def)
qed

text \<open>
  C6 as stated fails: \<open>/work/proj\<close> holds one entry, a socket named \<open>proj.md\<close>. The entry
  is passed over as a non-regular file, so nothing is collected; opening \<open>proj.md\<close> for
  writing fails, and \<open>gatherFiles\<close> returns an error instead of a payload.
\<close>

theorem gatherFiles_bootstrap_write_fails:
  "ReadDir w_socket [''work'', ''proj'']
     = Inr [\<lparr>entry_Name = ''proj.md'', entry_Type = ModeSocket, entry_dir = [''work'', ''proj'']\<rparr>]
   \<and> skipped w_socket \<lparr>entry_Name = ''proj.md'', entry_Type = ModeSocket, entry_dir = [''work'', ''proj'']\<rparr>
   \<and> gatherFiles w_socket [''work'', ''proj''] ''proj'' =
     (Inl (ErrorfW ''bootstrap default file %s: %w'' [''proj.md'']
            (PathError ''open'' [''work'', ''proj'', ''proj.md''] (Errno ENXIO))), w_socket)"
  by code_simp

subsection \<open>Symbolic links to directories\<close>

text \<open>
  C8, at a failing input. \<open>/work/link\<close> is a symbolic link to the directory \<open>/tmp\<close>:
  \<open>Stat\<close> reports a directory. \<open>gatherFiles\<close> returns no error; it skips the link as
  a non-regular file and returns the two regular files.
\<close>
theorem gatherFiles_skips_symlinked_directory:
  "Stat w_flat [''work'', ''link''] = Inr \<lparr>info_Name = ''link'', info_Mode = ModeDir OR 0x1FF\<rparr>
   \<and> IsDir (ModeDir OR 0x1FF)
   \<and> gatherFiles w_flat [''work''] ''work'' =
      (Inr [\<lparr>Name = ''a.txt'', Path = [''work'', ''a.txt''], Content = ''hello''\<rparr>,
            \<lparr>Name = ''b.txt'', Path = [''work'', ''b.txt''], Content = ''bee''\<rparr>], w_flat)"
  by code_simp

text \<open>
  C10, at a failing input. \<open>/work/.cache\<close> is a symbolic link to the directory \<open>/tmp\<close>.
  \<open>gatherFiles\<close> returns no error; it skips the link as a dotfile.
\<close>
theorem gatherFiles_skips_dot_symlinked_directory:
  "Stat w_dotlink [''work'', ''.cache''] = Inr \<lparr>info_Name = ''.cache'', info_Mode = ModeDir OR 0x1FF\<rparr>
   \<and> IsDir (ModeDir OR 0x1FF)
   \<and> gatherFiles w_dotlink [''work''] ''work'' =
      (Inr [\<lparr>Name = ''a.txt'', Path = [''work'', ''a.txt''], Content = ''hello''\<rparr>], w_dotlink)"
  by code_simp

section \<open>Properties of the CrossDeviceMover\<close>

lemma Rename_error_is_LinkError:
  "Rename w oldname newname = (Some err, w') \<Longrightarrow> errors_As_LinkError err"
  by (auto simp: Rename_def Let_def split: sum.splits if_splits option.splits prod.splits go_error.splits)

lemma moveFileOrDir_always_falls_back:
  assumes "Rename w src dst = (Some err, w1)"
  shows "moveFileOrDir w src dst =
    (case copyDir w1 src dst of
       (Some err, w2) \<Rightarrow> (Some (ErrorfW ''copy: %w'' [] err), w2)
     | (None, w2) \<Rightarrow>
         (case RemoveAll w2 src of
            (Some err, w3) \<Rightarrow> (Some (ErrorfW ''remove source after copy: %w'' [] err), w3)
          | (None, w3) \<Rightarrow> (None, w3)))"
  using assms Rename_error_is_LinkError[OF assms] by (simp add: moveFileOrDir_def)

subsection \<open>copyDir writes below its destination only\<close>


subsection \<open>moveFileOrDir\<close>


text \<open>
  C1, at a failing input. \<open>/tmp/clone/.git\<close> is moved to \<open>/work/sub/.git\<close> on the same
  device, where \<open>/work/sub\<close> does not exist. The rename fails with \<open>ENOENT\<close>, which is not
  the cross-device condition; \<open>moveFileOrDir\<close> does not return that error: it takes the
  copy-then-delete fallback, which creates \<open>/work/sub\<close>, and reports success.
\<close>
theorem moveFileOrDir_fallback_on_ENOENT:
  "Rename (w_clone\<lparr>mounts := []\<rparr>) [''tmp'', ''clone'', ''.git''] [''work'', ''sub'', ''.git'']
     = (Some (LinkError ''rename'' [''tmp'', ''clone'', ''.git''] [''work'', ''sub'', ''.git'']
               (Errno ENOENT)), w_clone\<lparr>mounts := []\<rparr>)
   \<and> moveFileOrDir (w_clone\<lparr>mounts := []\<rparr>) [''tmp'', ''clone'', ''.git''] [''work'', ''sub'', ''.git'']
     = (None, \<lparr>root = Dir 0x1ED
      [(''tmp'', Dir 0x1FF
          [(''clone'', Dir 0x1ED
             [(''.gitattributes'', File 0x1A4 ''* text''),
              (''.gitignore'', File 0x1A4 ''*.o''),
              (''a.txt'', File 0x1A4 ''hello'')])]),
       (''work'', Dir 0x1ED [(''a.txt'', File 0x1A4 ''hello''),
          (''sub'', Dir 0x1ED [(''.git'', Dir 0x1ED [(''HEAD'', File 0x1A4 ''ref'')])])])],
     umask = 0x12, mounts = []\<rparr>)"
  by code_simp

text \<open>
  C2, at a failing input. The regular file \<open>/tmp/clone/.gitattributes\<close> is moved across
  devices to the absent \<open>/work/.gitattributes\<close>. The rename fails with \<open>EXDEV\<close>; the
  fallback \<open>copyDir\<close> creates a directory at the destination, then fails to read the
  source as a directory. The source is still there and the destination is an empty
  directory with the file's permission bits.
\<close>
theorem moveFileOrDir_regular_file_across_devices:
  "Rename w_clone [''tmp'', ''clone'', ''.gitattributes''] [''work'', ''.gitattributes'']
     = (Some (LinkError ''rename'' [''tmp'', ''clone'', ''.gitattributes'']
               [''work'', ''.gitattributes''] (Errno EXDEV)), w_clone)
   \<and> moveFileOrDir w_clone [''tmp'', ''clone'', ''.gitattributes''] [''work'', ''.gitattributes'']
     = (Some (ErrorfW ''copy: %w'' []
               (PathError ''readdirent'' [''tmp'', ''clone'', ''.gitattributes''] (Errno ENOTDIR))),
        \<lparr>root = Dir 0x1ED
      [(''tmp'', Dir 0x1FF
          [(''clone'', Dir 0x1ED
             [(''.git'', Dir 0x1ED [(''HEAD'', File 0x1A4 ''ref'')]),
              (''.gitattributes'', File 0x1A4 ''* text''),
              (''.gitignore'', File 0x1A4 ''*.o''),
              (''a.txt'', File 0x1A4 ''hello'')])]),
       (''work'', Dir 0x1ED [(''a.txt'', File 0x1A4 ''hello''),
          (''.gitattributes'', Dir 0x1A4 [])])],
     umask = 0x12, mounts = [[''tmp'']]\<rparr>)"
  by code_simp

section \<open>Properties of the MetadataReconciler\<close>







subsection \<open>What the merge moves\<close>

lemma prefix_snoc_self [simp]: "\<not> prefix (p @ [n]) p"
  by (auto simp: prefix_def)










end
